theory Spec2Isabelle
  imports Main "HOL-Library.Word"
begin

section \<open>Go values used by \<open>pkg/commands/copy.go\<close>\<close>

text \<open>
  Go strings are byte strings: \<^typ>\<open>string\<close>. An \<open>error\<close> is a value; \<open>nil\<close> is the
  absence of one. The errors of the operating system carry an error number;
  \<open>errors.New\<close> and \<open>errors.Wrap\<close> (github.com/pkg/errors) build the others.
\<close>

datatype errno = ENOENT | ENOTDIR | EACCES | ELOOP | EIO

datatype error =
    PathError string string errno
  | errors_New string
  | errors_Wrap error string

text \<open>\<open>os.IsNotExist\<close> looks through a \<open>*PathError\<close> only (not through \<open>errors.Wrap\<close>).\<close>

fun os_IsNotExist :: "error \<Rightarrow> bool" where
  "os_IsNotExist (PathError _ _ e) = (e = ENOENT)"
| "os_IsNotExist (errors_New _) = False"
| "os_IsNotExist (errors_Wrap _ _) = False"

text \<open>What the code reads of an \<open>os.FileInfo\<close>: the directory and symlink bits of its mode.\<close>

record FileInfo =
  IsDir :: bool
  ModeSymlink :: bool

section \<open>\<open>path/filepath\<close> on Unix\<close>

definition Separator :: char where
  "Separator = CHR ''/''"

definition filepath_IsAbs :: "string \<Rightarrow> bool" where
  "filepath_IsAbs path = (case path of [] \<Rightarrow> False | c # _ \<Rightarrow> c = Separator)"

text \<open>
  \<open>filepath.Split\<close> cuts after the last separator: \<open>dir\<close> keeps it, \<open>file\<close> has none.
\<close>

definition filepath_Split :: "string \<Rightarrow> string \<times> string" where
  "filepath_Split path =
     (let file = rev (takeWhile (\<lambda>c. c \<noteq> Separator) (rev path))
      in (take (length path - length file) path, file))"

text \<open>The elements of a path between separators (\<open>strings.Split(path, "/")\<close>).\<close>

fun elements :: "string \<Rightarrow> string list" where
  "elements [] = [[]]"
| "elements (c # cs) =
     (if c = Separator then [] # elements cs
      else (case elements cs of [] \<Rightarrow> [[c]] | e # es \<Rightarrow> (c # e) # es))"

fun joinSep :: "string list \<Rightarrow> string" where
  "joinSep [] = []"
| "joinSep [e] = e"
| "joinSep (e # es) = e @ Separator # joinSep es"

text \<open>
  \<open>filepath.Clean\<close> reads the path element by element and keeps the output as a stack
  (here with the last element first): an empty element and \<open>.\<close> are dropped; \<open>..\<close>
  removes the last real element, is dropped at the root of a rooted path and is kept at
  the start of a relative one; any other element is added. The empty result is \<open>.\<close>.
\<close>

definition cleanElem :: "bool \<Rightarrow> string list \<Rightarrow> string \<Rightarrow> string list" where
  "cleanElem rooted out e =
     (if e = [] \<or> e = ''.'' then out
      else if e = ''..'' then
        (case out of
           [] \<Rightarrow> if rooted then out else [''..'']
         | l # ls \<Rightarrow> if l = ''..'' then ''..'' # out else ls)
      else e # out)"

definition filepath_Clean :: "string \<Rightarrow> string" where
  "filepath_Clean path =
     (if path = [] then ''.''
      else
        let rooted = filepath_IsAbs path;
            out = rev (foldl (cleanElem rooted) [] (elements path));
            s = (if rooted then [Separator] else []) @ joinSep out
        in if s = [] then ''.'' else s)"

text \<open>
  \<open>filepath.Join\<close>: from the first non-empty element on, the elements joined by the
  separator and cleaned; the empty string when every element is empty.
\<close>

definition filepath_Join :: "string list \<Rightarrow> string" where
  "filepath_Join elem =
     (case dropWhile (\<lambda>e. e = []) elem of
        [] \<Rightarrow> []
      | es \<Rightarrow> filepath_Clean (joinSep es))"

section \<open>The filesystem\<close>

text \<open>
  The filesystem is a state \<^typ>\<open>'w\<close> that the code reads through \<open>os.Lstat\<close> and
  \<open>filepath.EvalSymlinks\<close>. Both are taken as they answer: the entry's information or
  an error, the real path or an error.
\<close>

record 'w fsys =
  os_Lstat :: "'w \<Rightarrow> string \<Rightarrow> error + FileInfo"
  filepath_EvalSymlinks :: "'w \<Rightarrow> string \<Rightarrow> error + string"

section \<open>\<open>resolveIfSymlink\<close>\<close>

text \<open>
  The first loop of \<open>resolveIfSymlink\<close> walks up from the destination until an entry
  exists or the root is reached, and records the names it leaves behind. On a path that
  is not absolute the walk need not end (\<open>.\<close> is its own parent), so the loop is a
  partial function: \<open>None\<close> is the loop that never returns.
\<close>

partial_function (option) walkUp ::
  "'w fsys \<Rightarrow> 'w \<Rightarrow> string \<Rightarrow> string list \<Rightarrow> (error + string \<times> string list) option"
where
  "walkUp fs w newPath nonexistentPaths =
     (if newPath = ''/'' then Some (Inr (newPath, nonexistentPaths))
      else
        (case os_Lstat fs w newPath of
           Inl err \<Rightarrow>
             if os_IsNotExist err then
               (case filepath_Split newPath of
                  (dir, file) \<Rightarrow> walkUp fs w (filepath_Clean dir) (nonexistentPaths @ [file]))
             else Some (Inl (errors_Wrap err ''failed to lstat''))
         | Inr _ \<Rightarrow>
             (case filepath_EvalSymlinks fs w newPath of
                Inl err \<Rightarrow> Some (Inl (errors_Wrap err ''failed to eval symlinks''))
              | Inr p \<Rightarrow> Some (Inr (p, nonexistentPaths)))))"

declare walkUp.simps [code]

text \<open>The second loop joins the recorded names back, the last recorded first.\<close>

definition rejoin :: "string \<Rightarrow> string list \<Rightarrow> string" where
  "rejoin newPath nonexistentPaths =
     foldl (\<lambda>p file. filepath_Join [p, file]) newPath (rev nonexistentPaths)"

definition resolveIfSymlink :: "'w fsys \<Rightarrow> 'w \<Rightarrow> string \<Rightarrow> (error + string) option" where
  "resolveIfSymlink fs w destPath =
     (if \<not> filepath_IsAbs destPath then Some (Inl (errors_New ''dest path must be abs''))
      else
        (case walkUp fs w destPath [] of
           None \<Rightarrow> None
         | Some (Inl err) \<Rightarrow> Some (Inl err)
         | Some (Inr (newPath, nonexistentPaths)) \<Rightarrow>
             Some (Inr (filepath_Clean (rejoin newPath nonexistentPaths)))))"

text \<open>
  The walk visits the destination and then its parents, each the cleaned directory part
  of the one before. A path of \<open>n\<close> bytes has fewer than \<open>n\<close> of them below the root.
\<close>

definition parentPath :: "string \<Rightarrow> string" where
  "parentPath p = filepath_Clean (fst (filepath_Split p))"

definition ancestorChain :: "string \<Rightarrow> string list" where
  "ancestorChain p = filter (\<lambda>q. q \<noteq> ''/'') (map (\<lambda>n. (parentPath ^^ n) p) [0..<length p])"

text \<open>
  An entry holds no symlink when it does not exist, or when \<open>filepath.EvalSymlinks\<close> finds
  nothing to resolve in it: its real path is the path itself, normalised.
\<close>

definition symlinkFree :: "'w fsys \<Rightarrow> 'w \<Rightarrow> string \<Rightarrow> bool" where
  "symlinkFree fs w q =
     (case os_Lstat fs w q of
        Inl err \<Rightarrow> True
      | Inr fi \<Rightarrow> filepath_EvalSymlinks fs w q = Inr (filepath_Clean q))"

text \<open>\<open>os.Lstat\<close> answers for an entry when it finds it or reports that it does not exist.\<close>

definition lstatAnswers :: "'w fsys \<Rightarrow> 'w \<Rightarrow> string \<Rightarrow> bool" where
  "lstatAnswers fs w q =
     (case os_Lstat fs w q of Inl err \<Rightarrow> os_IsNotExist err | Inr fi \<Rightarrow> True)"

text \<open>\<open>os.Lstat\<close> reports that the entry does not exist.\<close>

definition lstatNotExist :: "'w fsys \<Rightarrow> 'w \<Rightarrow> string \<Rightarrow> bool" where
  "lstatNotExist fs w q =
     (case os_Lstat fs w q of Inl err \<Rightarrow> os_IsNotExist err | Inr fi \<Rightarrow> False)"

text \<open>A name of an entry: not empty, not \<open>.\<close> or \<open>..\<close>, without a separator.\<close>

definition plainName :: "string \<Rightarrow> bool" where
  "plainName e = (e \<noteq> [] \<and> e \<noteq> ''.'' \<and> e \<noteq> ''..'' \<and> Separator \<notin> set e)"

text \<open>A path with names appended, each after a separator.\<close>

definition appendNames :: "string \<Rightarrow> string list \<Rightarrow> string" where
  "appendNames p names = p @ concat (map ((#) Separator) names)"

text \<open>The stack \<open>filepath.Clean\<close> ends with on a rooted path.\<close>

definition cleanStack :: "string \<Rightarrow> string list" where
  "cleanStack p = foldl (cleanElem True) [] (elements p)"

section \<open>A filesystem to run the code on\<close>

text \<open>
  The answers of a small filesystem to the queries made below. Directories: \<open>/usr\<close>,
  \<open>/opt\<close>, \<open>/opt/local\<close>, \<open>/etc\<close>, \<open>/real\<close>, \<open>/real/deep\<close>. A regular file:
  \<open>/etc/passwd\<close>. Symlinks: \<open>/usr/local\<close> to \<open>/opt/local\<close> and \<open>/link\<close> to
  \<open>/real/deep\<close>. So \<open>/link/..\<close> is the directory \<open>/real\<close>, a path below
  \<open>/etc/passwd\<close> fails with \<open>ENOTDIR\<close>, and every other path asked for does not exist.
\<close>

definition sampleLstat :: "unit \<Rightarrow> string \<Rightarrow> error + FileInfo" where
  "sampleLstat w p =
     (if p \<in> {''/usr'', ''/opt'', ''/opt/local'', ''/etc'', ''/real'', ''/real/deep'', ''/link/..''}
        then Inr \<lparr>IsDir = True, ModeSymlink = False\<rparr>
      else if p \<in> {''/usr/local'', ''/link''} then Inr \<lparr>IsDir = False, ModeSymlink = True\<rparr>
      else if p = ''/etc/passwd'' then Inr \<lparr>IsDir = False, ModeSymlink = False\<rparr>
      else if take 12 p = ''/etc/passwd/'' then Inl (PathError ''lstat'' p ENOTDIR)
      else Inl (PathError ''lstat'' p ENOENT))"

definition sampleEvalSymlinks :: "unit \<Rightarrow> string \<Rightarrow> error + string" where
  "sampleEvalSymlinks w p =
     (if p \<in> {''/usr'', ''/opt'', ''/opt/local'', ''/etc'', ''/etc/passwd'', ''/real'', ''/real/deep''}
        then Inr p
      else if p = ''/usr/local'' then Inr ''/opt/local''
      else if p = ''/link'' then Inr ''/real/deep''
      else if p = ''/link/..'' then Inr ''/real''
      else if take 12 p = ''/etc/passwd/'' then Inl (PathError ''lstat'' p ENOTDIR)
      else Inl (PathError ''lstat'' p ENOENT))"

definition sampleFS :: "unit fsys" where
  "sampleFS = \<lparr>os_Lstat = sampleLstat, filepath_EvalSymlinks = sampleEvalSymlinks\<rparr>"

section \<open>Facts about paths\<close>


lemma elements_ne: "elements p \<noteq> []"
  by (induction p) (auto split: list.splits)

lemma elements_append: "elements (a @ Separator # b) = elements a @ elements b"
  by (induction a) (auto split: list.splits simp: elements_ne)

lemma elements_no_sep: "e \<in> set (elements p) \<Longrightarrow> Separator \<notin> set e"
  by (induction p arbitrary: e) (auto split: list.splits if_splits)

lemma elements_sep_free: "Separator \<notin> set s \<Longrightarrow> elements s = [s]"
  by (induction s) auto

lemma joinSep_elements: "joinSep (elements p) = p"
proof (induction p)
  case Nil show ?case by simp
next
  case (Cons c p)
  show ?case
  proof (cases "c = Separator")
    case True
    with Cons show ?thesis by (cases "elements p") (auto simp: elements_ne)
  next
    case False
    with Cons show ?thesis
      by (cases "elements p"; cases "tl (elements p)") (auto simp: elements_ne)
  qed
qed

lemma joinSep_Cons: "es \<noteq> [] \<Longrightarrow> joinSep (e # es) = e @ Separator # joinSep es"
  by (cases es) auto

lemma joinSep_snoc: "es \<noteq> [] \<Longrightarrow> joinSep (es @ [e]) = joinSep es @ Separator # e"
  by (induction es rule: joinSep.induct) auto

lemma elements_joinSep:
  "es \<noteq> [] \<Longrightarrow> \<forall>e\<in>set es. Separator \<notin> set e \<Longrightarrow> elements (joinSep es) = es"
proof (induction es rule: joinSep.induct)
  case 1 then show ?case by simp
next
  case (2 e) then show ?case by (simp add: elements_sep_free)
next
  case (3 e v va)
  then show ?case by (simp add: elements_append elements_sep_free)
qed

lemma Clean_abs_eq:
  "filepath_IsAbs p \<Longrightarrow> filepath_Clean p = Separator # joinSep (rev (cleanStack p))"
  by (auto simp: filepath_Clean_def filepath_IsAbs_def cleanStack_def Let_def)

lemma cleanElem_plain:
  "list_all plainName out \<Longrightarrow> Separator \<notin> set e \<Longrightarrow> list_all plainName (cleanElem True out e)"
  by (auto simp: cleanElem_def plainName_def split: list.splits)

lemma foldl_cleanElem_plain:
  "list_all plainName out \<Longrightarrow> \<forall>e\<in>set es. Separator \<notin> set e \<Longrightarrow>
     list_all plainName (foldl (cleanElem True) out es)"
  by (induction es arbitrary: out) (auto simp: cleanElem_plain)

lemma cleanStack_plain: "list_all plainName (cleanStack p)"
  unfolding cleanStack_def
  by (rule foldl_cleanElem_plain) (auto simp: elements_no_sep)

lemma cleanElem_push: "plainName e \<Longrightarrow> cleanElem r out e = e # out"
  by (auto simp: cleanElem_def plainName_def)

lemma foldl_cleanElem_push:
  "list_all plainName es \<Longrightarrow> foldl (cleanElem r) out es = rev es @ out"
  by (induction es arbitrary: out) (auto simp: cleanElem_push)

lemma cleanElem_empty [simp]: "cleanElem r out [] = out"
  by (simp add: cleanElem_def)

lemma cleanStack_append:
  "cleanStack (a @ Separator # b) = foldl (cleanElem True) (cleanStack a) (elements b)"
  by (simp add: cleanStack_def elements_append)

lemma cleanStack_Clean:
  assumes "filepath_IsAbs p"
  shows "cleanStack (filepath_Clean p) = cleanStack p"
proof -
  let ?S = "cleanStack p"
  have pl: "list_all plainName (rev ?S)" using cleanStack_plain [of p] by simp
  have "cleanStack (Separator # joinSep (rev ?S)) = foldl (cleanElem True) [] (elements (joinSep (rev ?S)))"
    using cleanStack_append [of "[]" "joinSep (rev ?S)"] by (simp add: cleanStack_def)
  also have "\<dots> = ?S"
  proof (cases "?S = []")
    case True then show ?thesis by simp
  next
    case False
    have "elements (joinSep (rev ?S)) = rev ?S"
      using False pl by (intro elements_joinSep) (auto simp: list_all_iff plainName_def)
    then show ?thesis using pl by (simp add: foldl_cleanElem_push)
  qed
  finally show ?thesis using assms by (simp add: Clean_abs_eq)
qed

lemma IsAbs_Clean: "filepath_IsAbs p \<Longrightarrow> filepath_IsAbs (filepath_Clean p)"
  by (simp add: Clean_abs_eq) (simp add: filepath_IsAbs_def)

lemma IsAbs_append: "filepath_IsAbs p \<Longrightarrow> filepath_IsAbs (p @ q)"
  by (cases p) (auto simp: filepath_IsAbs_def)

lemma Clean_Clean_append:
  assumes "filepath_IsAbs p"
  shows "filepath_Clean (filepath_Clean p @ Separator # f) = filepath_Clean (p @ Separator # f)"
proof -
  have "cleanStack (filepath_Clean p @ Separator # f) = cleanStack (p @ Separator # f)"
    by (simp add: cleanStack_append cleanStack_Clean assms)
  moreover have "filepath_IsAbs (filepath_Clean p @ Separator # f)"
    by (simp add: IsAbs_append IsAbs_Clean assms)
  moreover have "filepath_IsAbs (p @ Separator # f)"
    by (simp add: IsAbs_append assms)
  ultimately show ?thesis
    by (simp add: Clean_abs_eq)
qed

lemma Clean_idem:
  assumes "filepath_IsAbs p"
  shows "filepath_Clean (filepath_Clean p) = filepath_Clean p"
  using Clean_abs_eq [OF IsAbs_Clean [OF assms]] Clean_abs_eq [OF assms] cleanStack_Clean [OF assms]
  by simp

lemma Split_alt:
  "filepath_Split p =
     (rev (dropWhile (\<lambda>c. c \<noteq> Separator) (rev p)), rev (takeWhile (\<lambda>c. c \<noteq> Separator) (rev p)))"
proof -
  let ?t = "takeWhile (\<lambda>c. c \<noteq> Separator) (rev p)"
  let ?d = "dropWhile (\<lambda>c. c \<noteq> Separator) (rev p)"
  have p: "rev ?d @ rev ?t = p"
    by (simp only: rev_append [symmetric] takeWhile_dropWhile_id rev_rev_ident)
  have "length p - length ?t = length (rev ?d)"
    using arg_cong [OF p, of length] by simp
  then have "take (length p - length ?t) p = take (length (rev ?d)) (rev ?d @ rev ?t)"
    using p by simp
  then have "take (length p - length ?t) p = rev ?d"
    by simp
  then show ?thesis
    by (simp add: filepath_Split_def Let_def)
qed

lemma Split_append: "filepath_Split p = (d, f) \<Longrightarrow> p = d @ f"
proof -
  assume "filepath_Split p = (d, f)"
  then have "d @ f = rev (takeWhile (\<lambda>c. c \<noteq> Separator) (rev p) @ dropWhile (\<lambda>c. c \<noteq> Separator) (rev p))"
    unfolding Split_alt by (simp only: rev_append prod.inject)
  then show ?thesis by (simp only: takeWhile_dropWhile_id rev_rev_ident)
qed

lemma Split_file_no_sep:
  assumes "filepath_Split p = (d, f)"
  shows "Separator \<notin> set f"
proof
  assume "Separator \<in> set f"
  moreover have "f = rev (takeWhile (\<lambda>c. c \<noteq> Separator) (rev p))"
    using assms unfolding Split_alt by simp
  ultimately have "Separator \<in> set (takeWhile (\<lambda>c. c \<noteq> Separator) (rev p))"
    by simp
  then show False
    by (blast dest: set_takeWhileD)
qed

lemma Split_dir_sep:
  assumes "filepath_Split p = (d, f)"
  shows "d = [] \<or> last d = Separator"
proof (cases "d = []")
  case True then show ?thesis by simp
next
  case False
  have d: "rev d = dropWhile (\<lambda>c. c \<noteq> Separator) (rev p)"
    using assms unfolding Split_alt by auto
  from False have "rev d \<noteq> []" by simp
  then have "dropWhile (\<lambda>c. c \<noteq> Separator) (rev p) \<noteq> []" unfolding d .
  then have "\<not> (hd (dropWhile (\<lambda>c. c \<noteq> Separator) (rev p)) \<noteq> Separator)"
    by (rule hd_dropWhile)
  then have "hd (rev d) = Separator" unfolding d by simp
  then show ?thesis using False by (simp add: hd_rev)
qed

lemma Split_abs:
  assumes "filepath_IsAbs p" "filepath_Split p = (d, f)"
  shows "\<exists>d'. d = d' @ [Separator]"
proof -
  have p: "p = d @ f" using assms(2) by (rule Split_append)
  have nf: "Separator \<notin> set f" using assms(2) by (rule Split_file_no_sep)
  have "d \<noteq> []"
  proof
    assume "d = []"
    with p nf assms(1) show False by (cases p) (auto simp: filepath_IsAbs_def)
  qed
  with Split_dir_sep [OF assms(2)] have "d \<noteq> []" "last d = Separator" by auto
  then show ?thesis by (metis append_butlast_last_id)
qed

lemma Join2: "a \<noteq> [] \<Longrightarrow> filepath_Join [a, b] = filepath_Clean (a @ Separator # b)"
  by (simp add: filepath_Join_def)

lemma Clean_ne: "filepath_Clean p \<noteq> []"
  by (auto simp: filepath_Clean_def Let_def)

lemma Join_Split:
  assumes "filepath_IsAbs p" "filepath_Split p = (d, f)"
  shows "filepath_Join [filepath_Clean d, f] = filepath_Clean p"
        "filepath_IsAbs d"
proof -
  from Split_abs [OF assms] obtain d' where d: "d = d' @ [Separator]" by blast
  have p: "p = d' @ Separator # f" using Split_append [OF assms(2)] d by simp
  show abs: "filepath_IsAbs d"
    using assms(1) p d by (cases d') (auto simp: filepath_IsAbs_def)
  have "filepath_Join [filepath_Clean d, f] = filepath_Clean (filepath_Clean d @ Separator # f)"
    by (simp add: Join2 Clean_ne)
  also have "\<dots> = filepath_Clean (d @ Separator # f)"
    by (rule Clean_Clean_append [OF abs])
  also have "\<dots> = filepath_Clean p"
  proof -
    have "cleanStack (d @ Separator # f) = cleanStack p"
      unfolding d p using cleanStack_append [of "d'" "Separator # f"] cleanStack_append [of "d' @ [Separator]" f]
        cleanStack_append [of "d'" "[]"] cleanStack_append [of d' f]
      by (simp add: elements_append)
    then show ?thesis
      using Clean_abs_eq [OF assms(1)] Clean_abs_eq [OF IsAbs_append [OF abs, of "Separator # f"]]
      by simp
  qed
  finally show "filepath_Join [filepath_Clean d, f] = filepath_Clean p" .
qed


lemma length_joinSep:
  "es \<noteq> [] \<Longrightarrow> Suc (length (joinSep es)) = (\<Sum>e\<leftarrow>es. Suc (length e))"
  by (induction es rule: joinSep.induct) auto

lemma weight_cleanElem:
  "(\<Sum>x\<leftarrow>cleanElem True out e. Suc (length x)) \<le> (\<Sum>x\<leftarrow>out. Suc (length x)) + Suc (length e)"
  by (auto simp: cleanElem_def split: list.splits)

lemma weight_foldl_cleanElem:
  "(\<Sum>x\<leftarrow>foldl (cleanElem True) out es. Suc (length x))
     \<le> (\<Sum>x\<leftarrow>out. Suc (length x)) + (\<Sum>x\<leftarrow>es. Suc (length x))"
proof (induction es arbitrary: out)
  case Nil show ?case by simp
next
  case (Cons e es)
  have "(\<Sum>x\<leftarrow>foldl (cleanElem True) (cleanElem True out e) es. Suc (length x))
          \<le> (\<Sum>x\<leftarrow>cleanElem True out e. Suc (length x)) + (\<Sum>x\<leftarrow>es. Suc (length x))"
    by (rule Cons.IH)
  also have "\<dots> \<le> ((\<Sum>x\<leftarrow>out. Suc (length x)) + Suc (length e)) + (\<Sum>x\<leftarrow>es. Suc (length x))"
    using weight_cleanElem [of out e] by simp
  finally show ?case by simp
qed

lemma length_Clean_le:
  assumes "filepath_IsAbs p"
  shows "length (filepath_Clean p) \<le> length p"
proof -
  from assms obtain p' where p: "p = Separator # p'"
    by (cases p) (auto simp: filepath_IsAbs_def)
  have st: "cleanStack p = foldl (cleanElem True) [] (elements p')"
    by (simp add: p cleanStack_def)
  have "Suc (length p') = (\<Sum>e\<leftarrow>elements p'. Suc (length e))"
    using length_joinSep [OF elements_ne, of p'] by (simp add: joinSep_elements)
  then have lp: "length p = (\<Sum>e\<leftarrow>elements p'. Suc (length e))"
    by (simp add: p)
  have w: "(\<Sum>x\<leftarrow>cleanStack p. Suc (length x)) \<le> length p"
    using weight_foldl_cleanElem [of "[]" "elements p'"] by (simp add: st lp)
  show ?thesis
  proof (cases "cleanStack p = []")
    case True
    then show ?thesis using Clean_abs_eq [OF assms] by (simp add: p)
  next
    case False
    then have "Suc (length (joinSep (rev (cleanStack p)))) = (\<Sum>x\<leftarrow>rev (cleanStack p). Suc (length x))"
      by (intro length_joinSep) simp
    also have "\<dots> = (\<Sum>x\<leftarrow>cleanStack p. Suc (length x))"
      by (simp add: rev_map [symmetric])
    finally show ?thesis using w Clean_abs_eq [OF assms] by simp
  qed
qed

lemma Clean_trailing_sep:
  assumes "filepath_IsAbs d"
  shows "filepath_Clean (d @ [Separator]) = filepath_Clean d"
  using Clean_abs_eq [OF assms] Clean_abs_eq [OF IsAbs_append [OF assms, of "[Separator]"]]
    cleanStack_append [of d "[]"]
  by simp

lemma Clean_root: "filepath_Clean [Separator] = [Separator]"
  by (simp add: filepath_Clean_def filepath_IsAbs_def Let_def)

lemma root_eq: "''/'' = [Separator]"
  by (simp add: Separator_def)

lemma length_parent:
  assumes "filepath_IsAbs p" "p \<noteq> ''/''" "filepath_Split p = (d, f)"
  shows "length (filepath_Clean d) < length p"
proof -
  from Split_abs [OF assms(1,3)] obtain d' where d: "d = d' @ [Separator]" by blast
  have p: "p = d @ f" using assms(3) by (rule Split_append)
  show ?thesis
  proof (cases "d' = []")
    case True
    then have "f \<noteq> []" using p d assms(2) by (auto simp: root_eq)
    then show ?thesis using True d p by (simp add: Clean_root)
  next
    case False
    then have abs: "filepath_IsAbs d'"
      using assms(1) p d by (cases d') (auto simp: filepath_IsAbs_def)
    have "length (filepath_Clean d) \<le> length d'"
      unfolding d Clean_trailing_sep [OF abs] by (rule length_Clean_le [OF abs])
    then show ?thesis using p d by simp
  qed
qed

lemma rejoin_snoc: "rejoin q (ne @ [f]) = rejoin (filepath_Join [q, f]) ne"
  by (simp add: rejoin_def)

lemma IsAbs_ne: "filepath_IsAbs p \<Longrightarrow> p \<noteq> []"
  by (auto simp: filepath_IsAbs_def)

lemma Clean_rejoin_Clean:
  assumes "filepath_IsAbs q"
  shows "filepath_Clean (rejoin (filepath_Clean q) ne) = filepath_Clean (rejoin q ne)"
proof (cases ne rule: rev_cases)
  case Nil
  then show ?thesis by (simp add: rejoin_def Clean_idem [OF assms])
next
  case (snoc ne' f)
  have "filepath_Join [filepath_Clean q, f] = filepath_Join [q, f]"
    by (simp add: Join2 Clean_ne IsAbs_ne [OF assms] Clean_Clean_append [OF assms])
  then show ?thesis by (simp add: snoc rejoin_snoc)
qed

section \<open>Facts about the walk\<close>


lemma walkUp_root: "walkUp fs w ''/'' ne = Some (Inr (''/'', ne))"
  by (subst walkUp.simps) simp

lemma walkUp_found:
  "q \<noteq> ''/'' \<Longrightarrow> os_Lstat fs w q = Inr fi \<Longrightarrow>
     walkUp fs w q ne =
       (case filepath_EvalSymlinks fs w q of
          Inl err \<Rightarrow> Some (Inl (errors_Wrap err ''failed to eval symlinks''))
        | Inr p \<Rightarrow> Some (Inr (p, ne)))"
  by (subst walkUp.simps) simp

lemma walkUp_failed:
  "q \<noteq> ''/'' \<Longrightarrow> os_Lstat fs w q = Inl err \<Longrightarrow> \<not> os_IsNotExist err \<Longrightarrow>
     walkUp fs w q ne = Some (Inl (errors_Wrap err ''failed to lstat''))"
  by (subst walkUp.simps) simp

lemma walkUp_up:
  "q \<noteq> ''/'' \<Longrightarrow> os_Lstat fs w q = Inl err \<Longrightarrow> os_IsNotExist err \<Longrightarrow>
     walkUp fs w q ne = walkUp fs w (parentPath q) (ne @ [snd (filepath_Split q)])"
  by (subst walkUp.simps) (simp add: parentPath_def split: prod.splits)

lemma IsAbs_parentPath: "filepath_IsAbs q \<Longrightarrow> filepath_IsAbs (parentPath q)"
  unfolding parentPath_def
  by (cases "filepath_Split q") (simp add: IsAbs_Clean Join_Split(2))

lemma length_parentPath: "filepath_IsAbs q \<Longrightarrow> q \<noteq> ''/'' \<Longrightarrow> length (parentPath q) < length q"
  unfolding parentPath_def
  by (cases "filepath_Split q") (simp add: length_parent)

lemma Join_parentPath:
  "filepath_IsAbs q \<Longrightarrow> filepath_Join [parentPath q, snd (filepath_Split q)] = filepath_Clean q"
  unfolding parentPath_def
  by (cases "filepath_Split q") (simp add: Join_Split(1))

lemma walkUp_returns:
  "filepath_IsAbs q \<Longrightarrow> \<exists>r. walkUp fs w q ne = Some r"
proof (induction "length q" arbitrary: q ne rule: less_induct)
  case less
  show ?case
  proof (cases "q = ''/''")
    case True
    then show ?thesis by (simp add: walkUp_root)
  next
    case False
    show ?thesis
    proof (cases "os_Lstat fs w q")
      case (Inr fi)
      then show ?thesis using False by (simp add: walkUp_found split: sum.splits)
    next
      case (Inl err)
      show ?thesis
      proof (cases "os_IsNotExist err")
        case True
        have "\<exists>r. walkUp fs w (parentPath q) (ne @ [snd (filepath_Split q)]) = Some r"
          using less.prems False by (intro less.hyps length_parentPath IsAbs_parentPath)
        then show ?thesis by (simp add: walkUp_up [OF False Inl True])
      next
        case no: False
        then show ?thesis by (simp add: walkUp_failed [OF False Inl no])
      qed
    qed
  qed
qed

lemma walkUp_no_symlink:
  assumes "filepath_IsAbs q"
    and "\<forall>m<length q. (parentPath ^^ m) q \<noteq> ''/'' \<longrightarrow>
            symlinkFree fs w ((parentPath ^^ m) q) \<and> lstatAnswers fs w ((parentPath ^^ m) q)"
  shows "\<exists>r ne'. walkUp fs w q ne = Some (Inr (r, ne')) \<and>
            filepath_Clean (rejoin r ne') = filepath_Clean (rejoin q ne)"
  using assms
proof (induction "length q" arbitrary: q ne rule: less_induct)
  case less
  show ?case
  proof (cases "q = ''/''")
    case True
    then show ?thesis by (simp add: walkUp_root)
  next
    case False
    have "0 < length q" using less.prems(1) by (auto simp: filepath_IsAbs_def)
    with less.prems(2) False have here: "symlinkFree fs w q" "lstatAnswers fs w q"
      by force+
    show ?thesis
    proof (cases "os_Lstat fs w q")
      case (Inr fi)
      with here(1) have "filepath_EvalSymlinks fs w q = Inr (filepath_Clean q)"
        by (simp add: symlinkFree_def)
      then show ?thesis
        using False Inr by (simp add: walkUp_found Clean_rejoin_Clean [OF less.prems(1)])
    next
      case (Inl err)
      with here(2) have ne: "os_IsNotExist err"
        by (simp add: lstatAnswers_def)
      let ?q' = "parentPath q" and ?f = "snd (filepath_Split q)"
      have shorter: "length ?q' < length q"
        using less.prems(1) False by (rule length_parentPath)
      have abs: "filepath_IsAbs ?q'"
        using less.prems(1) by (rule IsAbs_parentPath)
      have up: "\<forall>m<length ?q'. (parentPath ^^ m) ?q' \<noteq> ''/'' \<longrightarrow>
            symlinkFree fs w ((parentPath ^^ m) ?q') \<and> lstatAnswers fs w ((parentPath ^^ m) ?q')"
      proof (intro allI impI)
        fix m assume m: "m < length ?q'" and nr: "(parentPath ^^ m) ?q' \<noteq> ''/''"
        have eq: "(parentPath ^^ m) ?q' = (parentPath ^^ Suc m) q"
          by (simp add: funpow_swap1)
        have "Suc m < length q" using m shorter by simp
        with less.prems(2) nr show
          "symlinkFree fs w ((parentPath ^^ m) ?q') \<and> lstatAnswers fs w ((parentPath ^^ m) ?q')"
          unfolding eq by blast
      qed
      from less.hyps [OF shorter abs up, of "ne @ [?f]"]
      obtain r ne' where r: "walkUp fs w ?q' (ne @ [?f]) = Some (Inr (r, ne'))"
        and c: "filepath_Clean (rejoin r ne') = filepath_Clean (rejoin ?q' (ne @ [?f]))"
        by blast
      have "filepath_Clean (rejoin ?q' (ne @ [?f])) = filepath_Clean (rejoin (filepath_Clean q) ne)"
        by (simp add: rejoin_snoc Join_parentPath [OF less.prems(1)])
      also have "\<dots> = filepath_Clean (rejoin q ne)"
        by (rule Clean_rejoin_Clean [OF less.prems(1)])
      finally show ?thesis
        using r c by (simp add: walkUp_up [OF False Inl ne])
    qed
  qed
qed

lemma appendNames_Nil [simp]: "appendNames p [] = p"
  by (simp add: appendNames_def)

lemma appendNames_snoc: "appendNames p (ts @ [t]) = appendNames p ts @ Separator # t"
  by (simp add: appendNames_def)

lemma IsAbs_appendNames: "filepath_IsAbs p \<Longrightarrow> filepath_IsAbs (appendNames p ts)"
  by (simp add: appendNames_def IsAbs_append)

lemma Split_snoc_name:
  assumes "Separator \<notin> set t"
  shows "filepath_Split (x @ Separator # t) = (x @ [Separator], t)"
proof -
  have r: "rev (x @ Separator # t) = rev t @ Separator # rev x" by simp
  have tw: "takeWhile (\<lambda>c. c \<noteq> Separator) (rev t @ Separator # rev x) = rev t"
    using assms by (subst takeWhile_append2) auto
  have dw: "dropWhile (\<lambda>c. c \<noteq> Separator) (rev t @ Separator # rev x) = Separator # rev x"
    using assms by (subst dropWhile_append2) auto
  show ?thesis
    unfolding Split_alt r tw dw by simp
qed

lemma Clean_snoc_name:
  assumes "filepath_IsAbs a" "filepath_Clean a = a" "a \<noteq> ''/''" "plainName t"
  shows "filepath_Clean (a @ Separator # t) = a @ Separator # t"
proof -
  let ?S = "cleanStack a"
  have a: "a = Separator # joinSep (rev ?S)"
    using Clean_abs_eq [OF assms(1)] assms(2) by simp
  have S: "?S \<noteq> []"
  proof
    assume "?S = []"
    with a have "a = [Separator]" by simp
    with assms(3) show False by (simp add: root_eq)
  qed
  have "elements t = [t]"
    using assms(4) by (simp add: elements_sep_free plainName_def)
  then have "cleanStack (a @ Separator # t) = t # ?S"
    by (simp add: cleanStack_append cleanElem_push [OF assms(4)])
  then have "filepath_Clean (a @ Separator # t) = Separator # joinSep (rev ?S @ [t])"
    using Clean_abs_eq [OF IsAbs_append [OF assms(1), of "Separator # t"]] by simp
  also have "\<dots> = (Separator # joinSep (rev ?S)) @ Separator # t"
    using S by (simp add: joinSep_snoc)
  also have "\<dots> = a @ Separator # t"
    using a by simp
  finally show ?thesis .
qed

lemma Clean_appendNames:
  assumes "filepath_IsAbs a" "filepath_Clean a = a" "a \<noteq> ''/''"
  shows "list_all plainName ts \<Longrightarrow> filepath_Clean (appendNames a ts) = appendNames a ts"
proof (induction ts rule: rev_induct)
  case Nil
  show ?case using assms(2) by simp
next
  case (snoc t ts)
  then have c: "filepath_Clean (appendNames a ts) = appendNames a ts" and t: "plainName t"
    by simp_all
  have "appendNames a ts \<noteq> ''/''"
  proof
    assume e: "appendNames a ts = ''/''"
    have "length a \<le> length (appendNames a ts)" by (simp add: appendNames_def)
    with e have "length a \<le> 1" by simp
    with assms(1,3) show False
      by (cases a) (auto simp: filepath_IsAbs_def root_eq)
  qed
  with c t show ?case
    unfolding appendNames_snoc
    by (intro Clean_snoc_name IsAbs_appendNames assms(1))
qed

lemma appendNames_not_root:
  assumes "filepath_IsAbs a" "ts \<noteq> []"
  shows "appendNames a ts \<noteq> ''/''"
proof
  assume e: "appendNames a ts = ''/''"
  from assms(2) obtain t ts' where "ts = t # ts'" by (cases ts) auto
  then have "length a + 1 \<le> length (appendNames a ts)" by (simp add: appendNames_def)
  moreover have "0 < length a" using assms(1) by (auto simp: filepath_IsAbs_def)
  ultimately show False using e by simp
qed

lemma walkUp_names:
  assumes "filepath_IsAbs anc" "filepath_Clean anc = anc" "anc \<noteq> ''/''"
    and "os_Lstat fs w anc = Inr fi" "filepath_EvalSymlinks fs w anc = Inr D"
  shows "list_all plainName tail \<Longrightarrow>
         \<forall>k\<in>{1..length tail}. lstatNotExist fs w (appendNames anc (take k tail)) \<Longrightarrow>
         walkUp fs w (appendNames anc tail) ne = Some (Inr (D, ne @ rev tail))"
proof (induction tail arbitrary: ne rule: rev_induct)
  case Nil
  show ?case using assms(3,4,5) by (simp add: walkUp_found)
next
  case (snoc t ts)
  let ?q = "appendNames anc (ts @ [t])"
  have t: "plainName t" and ts: "list_all plainName ts" using snoc.prems(1) by simp_all
  have nosep: "Separator \<notin> set t" using t by (simp add: plainName_def)
  have nr: "?q \<noteq> ''/''" by (rule appendNames_not_root [OF assms(1)]) simp
  have "lstatNotExist fs w (appendNames anc (take (length (ts @ [t])) (ts @ [t])))"
    using snoc.prems(2) by (intro bspec [OF snoc.prems(2)]) simp
  then have "lstatNotExist fs w ?q" by simp
  then obtain err where l: "os_Lstat fs w ?q = Inl err" and e: "os_IsNotExist err"
    by (auto simp: lstatNotExist_def split: sum.splits)
  have sp: "filepath_Split ?q = (appendNames anc ts @ [Separator], t)"
    unfolding appendNames_snoc by (rule Split_snoc_name [OF nosep])
  have par: "parentPath ?q = appendNames anc ts"
    unfolding parentPath_def sp
    by (simp add: Clean_trailing_sep [OF IsAbs_appendNames [OF assms(1)]]
        Clean_appendNames [OF assms(1,2,3) ts])
  have below: "\<forall>k\<in>{1..length ts}. lstatNotExist fs w (appendNames anc (take k ts))"
  proof
    fix k assume k: "k \<in> {1..length ts}"
    then have "k \<in> {1..length (ts @ [t])}" by simp
    from bspec [OF snoc.prems(2) this] k show "lstatNotExist fs w (appendNames anc (take k ts))"
      by simp
  qed
  have "walkUp fs w ?q ne = walkUp fs w (appendNames anc ts) (ne @ [t])"
    by (simp add: walkUp_up [OF nr l e] par sp)
  also have "\<dots> = Some (Inr (D, (ne @ [t]) @ rev ts))"
    by (rule snoc.IH [OF ts below])
  finally show ?case by simp
qed

lemma rejoin_names:
  assumes "filepath_IsAbs D"
  shows "filepath_IsAbs (rejoin D (rev ts)) \<and>
         filepath_Clean (rejoin D (rev ts)) = filepath_Clean (appendNames D ts)"
proof (induction ts rule: rev_induct)
  case Nil
  show ?case using assms by (simp add: rejoin_def)
next
  case (snoc t ts)
  let ?X = "rejoin D (rev ts)"
  from snoc have abs: "filepath_IsAbs ?X"
    and c: "filepath_Clean ?X = filepath_Clean (appendNames D ts)" by simp_all
  have absN: "filepath_IsAbs (appendNames D ts)" by (rule IsAbs_appendNames [OF assms])
  have "rejoin D (rev (ts @ [t])) = filepath_Join [?X, t]"
    by (simp add: rejoin_def)
  also have "\<dots> = filepath_Clean (?X @ Separator # t)"
    by (rule Join2 [OF IsAbs_ne [OF abs]])
  finally have r: "rejoin D (rev (ts @ [t])) = filepath_Clean (?X @ Separator # t)" .
  have "filepath_Clean (?X @ Separator # t) = filepath_Clean (filepath_Clean ?X @ Separator # t)"
    by (rule Clean_Clean_append [OF abs, symmetric])
  also have "\<dots> = filepath_Clean (appendNames D ts @ Separator # t)"
    unfolding c by (rule Clean_Clean_append [OF absN])
  finally have e: "filepath_Clean (?X @ Separator # t) = filepath_Clean (appendNames D (ts @ [t]))"
    by (simp add: appendNames_snoc)
  have a: "filepath_IsAbs (?X @ Separator # t)" by (rule IsAbs_append [OF abs])
  show ?case
    unfolding r using e IsAbs_Clean [OF a] Clean_idem [OF a] by simp
qed

section \<open>Properties of \<open>resolveIfSymlink\<close>\<close>

text \<open>
  C7. \<open>resolveIfSymlink\<close> on a path that is not absolute fails at once with the error
  \<open>dest path must be abs\<close>: the result is the same for every filesystem and every
  answer of \<open>os.Lstat\<close> and \<open>filepath.EvalSymlinks\<close>, so none is asked.
\<close>

theorem resolveIfSymlink_not_abs:
  "\<not> filepath_IsAbs destPath \<Longrightarrow>
     resolveIfSymlink fs w destPath = Some (Inl (errors_New ''dest path must be abs''))"
  by (simp add: resolveIfSymlink_def)

theorem resolveIfSymlink_not_abs_witness:
  "\<not> filepath_IsAbs ''usr/local/bin'' \<and>
   resolveIfSymlink
     \<lparr>os_Lstat = (\<lambda>(w::unit) p. Inl (PathError ''lstat'' p EIO)),
      filepath_EvalSymlinks = (\<lambda>w p. Inl (PathError ''lstat'' p EIO))\<rparr> () ''usr/local/bin''
     = Some (Inl (errors_New ''dest path must be abs''))"
proof -
  have rel: "\<not> filepath_IsAbs ''usr/local/bin''"
    by (simp add: filepath_IsAbs_def Separator_def)
  from resolveIfSymlink_not_abs [OF rel] rel show ?thesis
    by simp
qed

end
